theory Spec2Isabelle
  imports Main "HOL-Library.Sublist" "HOL-Library.Multiset"
begin

section \<open>The plugin registrant of the Windows runner\<close>

text \<open>
  The file \<^verbatim>\<open>windows/flutter/generated_plugin_registrant.cc\<close> holds one function,
  \<^verbatim>\<open>void RegisterPlugins(flutter::PluginRegistry* registry)\<close>, made of eight statements
  of the shape
  \<^verbatim>\<open>XRegisterWithRegistrar(registry->GetRegistrarForPlugin("X"));\<close>
  The registry class and the eight registration functions come from headers that are
  not part of the repository, so they are parameters of the model: a \<open>host\<close> gives
  the behaviour of the virtual method \<^verbatim>\<open>GetRegistrarForPlugin\<close> and of the eight
  entry points, as functions on an explicit world state that may fail.
\<close>

subsection \<open>Data\<close>

text \<open>A value of type \<^verbatim>\<open>flutter::PluginRegistry*\<close>: the null pointer or the address of a
  registry object.\<close>

datatype 'h ptr = nullptr | Ptr 'h

text \<open>The eight registration functions the file calls, under their C++ names.\<close>

datatype entry_point =
    BatteryPlusWindowsPluginRegisterWithRegistrar
  | BonsoirWindowsPluginCApiRegisterWithRegistrar
  | FirebaseCorePluginCApiRegisterWithRegistrar
  | FlutterJsPluginRegisterWithRegistrar
  | PermissionHandlerWindowsPluginRegisterWithRegistrar
  | ScreenRetrieverWindowsPluginCApiRegisterWithRegistrar
  | UrlLauncherWindowsRegisterWithRegistrar
  | WindowManagerPluginRegisterWithRegistrar

text \<open>
  How an invocation can end without returning: the member call through a null pointer
  faults (the model takes the guard failure of a C semantics for what C++ leaves
  undefined), or a call into the host fails with the host's own error value \<open>'e\<close>
  (an exception or an abort of the host).
\<close>

datatype 'e failure = NullDereference | Raised 'e

text \<open>
  The code outside the repository. \<open>'h\<close> is the address of a registry object,
  \<open>'r\<close> the sub-registrar handle (\<^verbatim>\<open>FlutterDesktopPluginRegistrarRef\<close>), \<open>'s\<close> the world
  state the calls read and change.
\<close>

record ('e, 'h, 'r, 's) host =
  GetRegistrarForPlugin :: "'h \<Rightarrow> string \<Rightarrow> 's \<Rightarrow> 'e + 'r \<times> 's"
  RegisterWithRegistrar :: "entry_point \<Rightarrow> 'r \<Rightarrow> 's \<Rightarrow> 'e + 's"

text \<open>
  What a mock of the host observes: every call that reached the host, with its argument
  and its result, in the order of the calls.
\<close>

datatype ('e, 'r) event =
    Lookup string "'e + 'r"
  | Register entry_point 'r "'e option"

type_synonym ('e, 'r, 's) outcome = "('e, 'r) event list \<times> ('e failure + 's)"

subsection \<open>The function\<close>

text \<open>
  One statement \<^verbatim>\<open>F(registry->GetRegistrarForPlugin(name));\<close>. The argument is evaluated
  first: the pointer is dereferenced, the method is called, and only when it has returned
  a registrar is \<open>F\<close> called with it. A failure ends the statement where it happens.
\<close>

definition stmt ::
  "('e, 'h, 'r, 's) host \<Rightarrow> entry_point \<Rightarrow> 'h ptr \<Rightarrow> string \<Rightarrow> 's \<Rightarrow> ('e, 'r, 's) outcome" where
  "stmt host F registry name s =
     (case registry of
        nullptr \<Rightarrow> ([], Inl NullDereference)
      | Ptr h \<Rightarrow>
          (case GetRegistrarForPlugin host h name s of
             Inl e \<Rightarrow> ([Lookup name (Inl e)], Inl (Raised e))
           | Inr (r, s1) \<Rightarrow>
               (case RegisterWithRegistrar host F r s1 of
                  Inl e \<Rightarrow> ([Lookup name (Inr r), Register F r (Some e)], Inl (Raised e))
                | Inr s2 \<Rightarrow> ([Lookup name (Inr r), Register F r None], Inr s2))))"

text \<open>
  Sequential composition \<^verbatim>\<open>c1; c2\<close>: the second statement runs in the state the first one
  left, and does not run when the first one failed (nothing in the function catches).
\<close>

definition then_stmt ::
  "('s \<Rightarrow> ('e, 'r, 's) outcome) \<Rightarrow> ('s \<Rightarrow> ('e, 'r, 's) outcome) \<Rightarrow> 's \<Rightarrow> ('e, 'r, 's) outcome" where
  "then_stmt c1 c2 s =
     (case c1 s of
        (t1, Inl x) \<Rightarrow> (t1, Inl x)
      | (t1, Inr s1) \<Rightarrow> (case c2 s1 of (t2, res) \<Rightarrow> (t1 @ t2, res)))"

text \<open>The body of \<^verbatim>\<open>RegisterPlugins\<close>, statement by statement. The function is
  \<^verbatim>\<open>void\<close>: a normal return carries the new state and no value.\<close>

definition RegisterPlugins ::
  "('e, 'h, 'r, 's) host \<Rightarrow> 'h ptr \<Rightarrow> 's \<Rightarrow> ('e, 'r, 's) outcome" where
  "RegisterPlugins host registry =
     then_stmt (stmt host BatteryPlusWindowsPluginRegisterWithRegistrar
                  registry ''BatteryPlusWindowsPlugin'')
    (then_stmt (stmt host BonsoirWindowsPluginCApiRegisterWithRegistrar
                  registry ''BonsoirWindowsPluginCApi'')
    (then_stmt (stmt host FirebaseCorePluginCApiRegisterWithRegistrar
                  registry ''FirebaseCorePluginCApi'')
    (then_stmt (stmt host FlutterJsPluginRegisterWithRegistrar
                  registry ''FlutterJsPlugin'')
    (then_stmt (stmt host PermissionHandlerWindowsPluginRegisterWithRegistrar
                  registry ''PermissionHandlerWindowsPlugin'')
    (then_stmt (stmt host ScreenRetrieverWindowsPluginCApiRegisterWithRegistrar
                  registry ''ScreenRetrieverWindowsPluginCApi'')
    (then_stmt (stmt host UrlLauncherWindowsRegisterWithRegistrar
                  registry ''UrlLauncherWindows'')
               (stmt host WindowManagerPluginRegisterWithRegistrar
                  registry ''WindowManagerPlugin'')))))))"

subsection \<open>Reading a trace\<close>

text \<open>A call without its result: which method or entry point was called, and for a lookup
  with which name.\<close>

datatype call = LookupCall string | RegisterCall entry_point

fun call_of :: "('e, 'r) event \<Rightarrow> call" where
  "call_of (Lookup n res) = LookupCall n"
| "call_of (Register F r res) = RegisterCall F"


text \<open>The names passed to \<^verbatim>\<open>GetRegistrarForPlugin\<close>, in the order of the calls.\<close>

fun lookup_names :: "('e, 'r) event list \<Rightarrow> string list" where
  "lookup_names [] = []"
| "lookup_names (Lookup n res # t) = n # lookup_names t"
| "lookup_names (Register F r res # t) = lookup_names t"

text \<open>The entry points called, in the order of the calls.\<close>

fun registered :: "('e, 'r) event list \<Rightarrow> entry_point list" where
  "registered [] = []"
| "registered (Lookup n res # t) = registered t"
| "registered (Register F r res # t) = F # registered t"

subsection \<open>The statements as a table\<close>

text \<open>
  The eight statements differ only in the entry point and the name. \<open>run_pairs\<close> runs
  any list of such pairs one after the other; \<open>plugin_table\<close> is the list the file
  has, in its order. \<open>RegisterPlugins_table\<close> below shows that the function is the run of
  its table, so that properties can be proved by induction on the list.
\<close>

fun run_pairs ::
  "('e, 'h, 'r, 's) host \<Rightarrow> 'h ptr \<Rightarrow> (entry_point \<times> string) list \<Rightarrow> 's \<Rightarrow> ('e, 'r, 's) outcome" where
  "run_pairs host registry [] s = ([], Inr s)"
| "run_pairs host registry ((F, name) # ps) s =
     then_stmt (stmt host F registry name) (run_pairs host registry ps) s"

definition plugin_table :: "(entry_point \<times> string) list" where
  "plugin_table =
    [(BatteryPlusWindowsPluginRegisterWithRegistrar, ''BatteryPlusWindowsPlugin''),
     (BonsoirWindowsPluginCApiRegisterWithRegistrar, ''BonsoirWindowsPluginCApi''),
     (FirebaseCorePluginCApiRegisterWithRegistrar, ''FirebaseCorePluginCApi''),
     (FlutterJsPluginRegisterWithRegistrar, ''FlutterJsPlugin''),
     (PermissionHandlerWindowsPluginRegisterWithRegistrar, ''PermissionHandlerWindowsPlugin''),
     (ScreenRetrieverWindowsPluginCApiRegisterWithRegistrar, ''ScreenRetrieverWindowsPluginCApi''),
     (UrlLauncherWindowsRegisterWithRegistrar, ''UrlLauncherWindows''),
     (WindowManagerPluginRegisterWithRegistrar, ''WindowManagerPlugin'')]"

text \<open>The calls of a list of pairs when nothing fails: each lookup, then its registration.\<close>

fun calls_of_pairs :: "(entry_point \<times> string) list \<Rightarrow> call list" where
  "calls_of_pairs [] = []"
| "calls_of_pairs ((F, name) # ps) = LookupCall name # RegisterCall F # calls_of_pairs ps"

subsection \<open>The plugins' names\<close>

text \<open>
  The eight canonical plugin names of the specification's interface section, in the order
  it lists them. This list follows the specification's words; the names the code passes
  are the string literals in \<open>RegisterPlugins\<close>.
\<close>

definition known_plugin_names :: "string list" where
  "known_plugin_names =
    [''BatteryPlusWindowsPlugin'', ''BonsoirWindowsPluginCApi'', ''FirebaseCorePluginCApi'',
     ''FlutterJsPlugin'', ''PermissionHandlerWindowsPlugin'',
     ''ScreenRetrieverWindowsPluginCApi'', ''UrlLauncherWindows'', ''WindowManagerPlugin'']"




text \<open>The calls in the order of the source text, lines 19 to 34.\<close>

definition program_order :: "call list" where
  "program_order =
    [LookupCall ''BatteryPlusWindowsPlugin'',
     RegisterCall BatteryPlusWindowsPluginRegisterWithRegistrar,
     LookupCall ''BonsoirWindowsPluginCApi'',
     RegisterCall BonsoirWindowsPluginCApiRegisterWithRegistrar,
     LookupCall ''FirebaseCorePluginCApi'',
     RegisterCall FirebaseCorePluginCApiRegisterWithRegistrar,
     LookupCall ''FlutterJsPlugin'',
     RegisterCall FlutterJsPluginRegisterWithRegistrar,
     LookupCall ''PermissionHandlerWindowsPlugin'',
     RegisterCall PermissionHandlerWindowsPluginRegisterWithRegistrar,
     LookupCall ''ScreenRetrieverWindowsPluginCApi'',
     RegisterCall ScreenRetrieverWindowsPluginCApiRegisterWithRegistrar,
     LookupCall ''UrlLauncherWindows'',
     RegisterCall UrlLauncherWindowsRegisterWithRegistrar,
     LookupCall ''WindowManagerPlugin'',
     RegisterCall WindowManagerPluginRegisterWithRegistrar]"

subsection \<open>Observing a part of the world\<close>

text \<open>
  \<open>view\<close> projects the world state to the part that counts as the registry's state.
  A host respects a view when the outcome of each of its calls, read through the view,
  depends on the state only through the view. An outcome is observed as its trace and
  its result read through the view.
\<close>

definition host_respects :: "('e, 'h, 'r, 's) host \<Rightarrow> ('s \<Rightarrow> 'v) \<Rightarrow> bool" where
  "host_respects host view \<longleftrightarrow>
     (\<forall>h n s1 s2. view s1 = view s2 \<longrightarrow>
        map_sum id (map_prod id view) (GetRegistrarForPlugin host h n s1) =
        map_sum id (map_prod id view) (GetRegistrarForPlugin host h n s2)) \<and>
     (\<forall>F r s1 s2. view s1 = view s2 \<longrightarrow>
        map_sum id view (RegisterWithRegistrar host F r s1) =
        map_sum id view (RegisterWithRegistrar host F r s2))"

definition observe :: "('s \<Rightarrow> 'v) \<Rightarrow> ('e, 'r, 's) outcome \<Rightarrow> ('e, 'r, 'v) outcome" where
  "observe view out = (fst out, map_sum id view (snd out))"

subsection \<open>Calls that reached the host\<close>

text \<open>
  The trace of an outcome is written by the model of the statement, not by the host.
  \<open>performed\<close> says of a trace and a result that they are those of calls really made:
  when the calls of the trace are made on the host one after the other, starting in state
  \<open>s\<close> and each in the state the call before it left, then every call gives the
  result the trace has for it; after a call that fails nothing follows and the result is
  that failure, with the host's error as it is; and a result that is a state is the state
  the last call left. \<open>genuine\<close> adds the null handle, through which no call is made.
\<close>

fun performed ::
  "('e, 'h, 'r, 's) host \<Rightarrow> 'h \<Rightarrow> 's \<Rightarrow> ('e, 'r) event list \<Rightarrow> 'e failure + 's \<Rightarrow> bool" where
  "performed host h s [] res = (res = Inr s)"
| "performed host h s (Lookup n out # t) res =
     (case GetRegistrarForPlugin host h n s of
        Inl e \<Rightarrow> out = Inl e \<and> t = [] \<and> res = Inl (Raised e)
      | Inr (r, s1) \<Rightarrow> out = Inr r \<and> performed host h s1 t res)"
| "performed host h s (Register F r out # t) res =
     (case RegisterWithRegistrar host F r s of
        Inl e \<Rightarrow> out = Some e \<and> t = [] \<and> res = Inl (Raised e)
      | Inr s1 \<Rightarrow> out = None \<and> performed host h s1 t res)"

definition genuine ::
  "('e, 'h, 'r, 's) host \<Rightarrow> 'h ptr \<Rightarrow> 's \<Rightarrow> ('e, 'r, 's) outcome \<Rightarrow> bool" where
  "genuine host registry s out =
     (case registry of
        nullptr \<Rightarrow> out = ([], Inl NullDereference)
      | Ptr h \<Rightarrow> performed host h s (fst out) (snd out))"

subsection \<open>Mock hosts\<close>

text \<open>
  A mock registry for concrete runs. It keeps its own record: the state of the mock is
  the list of the calls that have reached it, each written down by the mock itself when
  it is called. The registrar it hands out for a name is the name. The lookup of
  \<open>bad_name\<close> and the registration through \<open>bad_entry\<close> fail, when given.
\<close>

definition mock_host ::
  "string option \<Rightarrow> entry_point option \<Rightarrow>
   (string, unit, string, (string, string) event list) host" where
  "mock_host bad_name bad_entry =
     \<lparr> GetRegistrarForPlugin =
         (\<lambda>h name s. if Some name = bad_name then Inl ''lookup failed''
                      else Inr (name, s @ [Lookup name (Inr name)])),
       RegisterWithRegistrar =
         (\<lambda>F r s. if Some F = bad_entry then Inl ''registration failed''
                   else Inr (s @ [Register F r None])) \<rparr>"

text \<open>What the mock has recorded after one full round of calls.\<close>

definition full_round :: "(string, string) event list" where
  "full_round =
     [Lookup ''BatteryPlusWindowsPlugin'' (Inr ''BatteryPlusWindowsPlugin''),
      Register BatteryPlusWindowsPluginRegisterWithRegistrar ''BatteryPlusWindowsPlugin'' None,
      Lookup ''BonsoirWindowsPluginCApi'' (Inr ''BonsoirWindowsPluginCApi''),
      Register BonsoirWindowsPluginCApiRegisterWithRegistrar ''BonsoirWindowsPluginCApi'' None,
      Lookup ''FirebaseCorePluginCApi'' (Inr ''FirebaseCorePluginCApi''),
      Register FirebaseCorePluginCApiRegisterWithRegistrar ''FirebaseCorePluginCApi'' None,
      Lookup ''FlutterJsPlugin'' (Inr ''FlutterJsPlugin''),
      Register FlutterJsPluginRegisterWithRegistrar ''FlutterJsPlugin'' None,
      Lookup ''PermissionHandlerWindowsPlugin'' (Inr ''PermissionHandlerWindowsPlugin''),
      Register PermissionHandlerWindowsPluginRegisterWithRegistrar
        ''PermissionHandlerWindowsPlugin'' None,
      Lookup ''ScreenRetrieverWindowsPluginCApi'' (Inr ''ScreenRetrieverWindowsPluginCApi''),
      Register ScreenRetrieverWindowsPluginCApiRegisterWithRegistrar
        ''ScreenRetrieverWindowsPluginCApi'' None,
      Lookup ''UrlLauncherWindows'' (Inr ''UrlLauncherWindows''),
      Register UrlLauncherWindowsRegisterWithRegistrar ''UrlLauncherWindows'' None,
      Lookup ''WindowManagerPlugin'' (Inr ''WindowManagerPlugin''),
      Register WindowManagerPluginRegisterWithRegistrar ''WindowManagerPlugin'' None]"

text \<open>
  A recording mock that guards against double registration itself: it refuses the
  registration through an entry point that it has already recorded.
\<close>

definition once_host :: "(string, unit, string, (string, string) event list) host" where
  "once_host =
     \<lparr> GetRegistrarForPlugin = (\<lambda>h name s. Inr (name, s @ [Lookup name (Inr name)])),
       RegisterWithRegistrar =
         (\<lambda>F r s. if F \<in> set (registered s) then Inl ''already registered''
                   else Inr (s @ [Register F r None])) \<rparr>"


text \<open>A mock whose state counts the registrations, in a world that has a second
  component, which no call of the host reads or writes.\<close>

definition ambient_host :: "(string, unit, string, nat \<times> nat) host" where
  "ambient_host =
     \<lparr> GetRegistrarForPlugin = (\<lambda>h name s. Inr (name, s)),
       RegisterWithRegistrar = (\<lambda>F r s. Inr (Suc (fst s), snd s)) \<rparr>"

subsection \<open>The registry of the specification\<close>

type_synonym 'c slots = "string \<Rightarrow> 'c option"

text \<open>
  Modelled from the spec: the class \<^verbatim>\<open>flutter::PluginRegistry\<close> and the eight plugins'
  registration functions are declared in headers outside the repository, and the file
  says nothing about what they do to the registry. The specification does: the registry
  is a "facility mapping plugin names to capability handles", a sub-registrar is "a scoped
  handle into the registry granted to one specific plugin for its own registration", and
  "each registration is independent and side-effect-isolated to its own plugin slot";
  after the call "the registry now has all eight plugins active".

  So the registry's state maps a plugin name to the capability in its slot, if the plugin
  is active. The sub-registrar for a name is the handle of that one slot. A lookup may be
  refused (\<open>grant\<close>) and a registration may fail or produce the plugin's capability
  (\<open>activate\<close>); both see the plugin's own slot only, and a registration writes
  its own slot only. What the plugins are is left open: \<open>grant\<close> and \<open>activate\<close>
  are parameters.
\<close>

definition slot_registry ::
  "(string \<Rightarrow> 'c option \<Rightarrow> 'e option) \<Rightarrow> (entry_point \<Rightarrow> 'c option \<Rightarrow> 'e + 'c) \<Rightarrow>
   ('e, 'h, string, 'c slots) host" where
  "slot_registry grant activate =
     \<lparr> GetRegistrarForPlugin =
         (\<lambda>h name s. case grant name (s name) of Some e \<Rightarrow> Inl e | None \<Rightarrow> Inr (name, s)),
       RegisterWithRegistrar =
         (\<lambda>F slot s. case activate F (s slot) of
                        Inl e \<Rightarrow> Inl e
                      | Inr c \<Rightarrow> Inr (s(slot \<mapsto> c))) \<rparr>"

text \<open>Modelled from the spec: what it is for a plugin to be "active" in the registry, which
  the file does not say. A plugin is active when its slot holds a capability.\<close>

definition active :: "'c slots \<Rightarrow> string \<Rightarrow> bool" where
  "active s name \<longleftrightarrow> s name \<noteq> None"

text \<open>
  What running a set of pairs with pairwise different names does to the slots, from
  state \<open>s\<close> to state \<open>s'\<close>: every pair is granted its lookup and activates
  its own slot from what that slot held before, and no other slot changes.
\<close>

definition slots_after ::
  "(string \<Rightarrow> 'c option \<Rightarrow> 'e option) \<Rightarrow> (entry_point \<Rightarrow> 'c option \<Rightarrow> 'e + 'c) \<Rightarrow>
   (entry_point \<times> string) set \<Rightarrow> 'c slots \<Rightarrow> 'c slots \<Rightarrow> bool" where
  "slots_after g a P s s' \<longleftrightarrow>
     (\<forall>(F, n) \<in> P. g n (s n) = None \<and> (\<exists>c. a F (s n) = Inr c \<and> s' n = Some c)) \<and>
     (\<forall>n. n \<notin> snd ` P \<longrightarrow> s' n = s n)"

text \<open>Plugins for concrete runs on the registry of the specification: no lookup is
  refused, and a registration puts into the slot how often the plugin has been registered.
  \<open>all_active\<close> is the state they leave when every plugin was inactive before.\<close>

definition open_grant :: "string \<Rightarrow> nat option \<Rightarrow> string option" where
  "open_grant name slot = None"

definition counting_activate :: "entry_point \<Rightarrow> nat option \<Rightarrow> string + nat" where
  "counting_activate F slot = Inr (case slot of None \<Rightarrow> 1 | Some k \<Rightarrow> Suc k)"

definition all_active :: "nat slots \<Rightarrow> nat slots" where
  "all_active s =
     s(''BatteryPlusWindowsPlugin'' \<mapsto> 1, ''BonsoirWindowsPluginCApi'' \<mapsto> 1,
       ''FirebaseCorePluginCApi'' \<mapsto> 1, ''FlutterJsPlugin'' \<mapsto> 1,
       ''PermissionHandlerWindowsPlugin'' \<mapsto> 1, ''ScreenRetrieverWindowsPluginCApi'' \<mapsto> 1,
       ''UrlLauncherWindows'' \<mapsto> 1, ''WindowManagerPlugin'' \<mapsto> 1)"

text \<open>The names, and the entry points, that occur in a list of calls, in order.\<close>

fun names_of_calls :: "call list \<Rightarrow> string list" where
  "names_of_calls [] = []"
| "names_of_calls (LookupCall n # cs) = n # names_of_calls cs"
| "names_of_calls (RegisterCall F # cs) = names_of_calls cs"

fun entries_of_calls :: "call list \<Rightarrow> entry_point list" where
  "entries_of_calls [] = []"
| "entries_of_calls (LookupCall n # cs) = entries_of_calls cs"
| "entries_of_calls (RegisterCall F # cs) = F # entries_of_calls cs"

section \<open>Basic facts\<close>

lemma then_stmt_skip: "then_stmt c (\<lambda>s. ([], Inr s)) s = c s"
  by (simp add: then_stmt_def split: prod.splits sum.splits)

lemma then_stmt_skip_fun: "then_stmt c (\<lambda>s. ([], Inr s)) = c"
  by (rule ext) (rule then_stmt_skip)

lemma run_pairs_Nil_fun: "run_pairs host registry [] = (\<lambda>s. ([], Inr s))"
  by (rule ext) simp

lemma run_pairs_Cons_fun:
  "run_pairs host registry ((F, name) # ps) =
     then_stmt (stmt host F registry name) (run_pairs host registry ps)"
  by (rule ext) simp

lemma RegisterPlugins_table:
  "RegisterPlugins host registry = run_pairs host registry plugin_table"
  unfolding RegisterPlugins_def plugin_table_def
  by (simp only: run_pairs_Cons_fun run_pairs_Nil_fun then_stmt_skip_fun)


lemma run_pairs_nullptr:
  "ps \<noteq> [] \<Longrightarrow> run_pairs host nullptr ps s = ([], Inl NullDereference)"
  by (cases ps) (auto simp: then_stmt_def stmt_def)

lemma run_pairs_Cons_Ptr:
  "run_pairs host (Ptr h) ((F, n) # ps) s =
     (case GetRegistrarForPlugin host h n s of
        Inl e \<Rightarrow> ([Lookup n (Inl e)], Inl (Raised e))
      | Inr (r, s1) \<Rightarrow>
          (case RegisterWithRegistrar host F r s1 of
             Inl e \<Rightarrow> ([Lookup n (Inr r), Register F r (Some e)], Inl (Raised e))
           | Inr s2 \<Rightarrow>
               (case run_pairs host (Ptr h) ps s2 of
                  (t, res) \<Rightarrow> (Lookup n (Inr r) # Register F r None # t, res))))"
  by (simp add: then_stmt_def stmt_def split: sum.splits prod.splits)

lemma run_pairs_success_Ptr:
  "run_pairs host registry ps s = (t, Inr s') \<Longrightarrow> ps \<noteq> [] \<Longrightarrow> \<exists>h. registry = Ptr h"
  by (cases registry) (auto simp: run_pairs_nullptr)



lemma run_pairs_Cons_success:
  assumes "run_pairs host registry ((F, n) # ps) s = (t, Inr s')"
  obtains h r s1 s2 t' where "registry = Ptr h"
    and "GetRegistrarForPlugin host h n s = Inr (r, s1)"
    and "RegisterWithRegistrar host F r s1 = Inr s2"
    and "run_pairs host registry ps s2 = (t', Inr s')"
    and "t = Lookup n (Inr r) # Register F r None # t'"
proof -
  from run_pairs_success_Ptr [OF assms] obtain h where h: "registry = Ptr h"
    by auto
  from assms that show ?thesis
    unfolding h run_pairs_Cons_Ptr by (auto split: sum.splits prod.splits)
qed

lemma run_pairs_calls_success:
  "run_pairs host registry ps s = (t, Inr s') \<Longrightarrow> map call_of t = calls_of_pairs ps"
proof (induction ps arbitrary: s t)
  case Nil
  then show ?case by simp
next
  case (Cons p ps)
  obtain F n where p: "p = (F, n)" by (cases p)
  from Cons.prems [unfolded p] obtain r s2 t' where
    run: "run_pairs host registry ps s2 = (t', Inr s')"
    and t: "t = Lookup n (Inr r) # Register F r None # t'"
    by (rule run_pairs_Cons_success)
  from Cons.IH [OF run] show ?case by (simp add: p t)
qed



lemma run_pairs_calls_prefix:
  "run_pairs host registry ps s = (t, res) \<Longrightarrow> prefix (map call_of t) (calls_of_pairs ps)"
proof (induction ps arbitrary: s t)
  case Nil
  then show ?case by simp
next
  case (Cons p ps)
  obtain F n where p: "p = (F, n)" by (cases p)
  show ?case
  proof (cases registry)
    case nullptr
    with Cons.prems show ?thesis by (simp add: run_pairs_nullptr)
  next
    case (Ptr h)
    have IH: "run_pairs host (Ptr h) ps s2 = (t2, res) \<Longrightarrow> prefix (map call_of t2) (calls_of_pairs ps)"
      for s2 t2 using Cons.IH Ptr by simp
    from Cons.prems show ?thesis
      unfolding p Ptr run_pairs_Cons_Ptr
      by (auto split: sum.splits prod.splits dest: IH)
  qed
qed


section \<open>The calls of a run are calls made on the host\<close>

lemma run_pairs_performed:
  "run_pairs host (Ptr h) ps s = (t, res) \<Longrightarrow> performed host h s t res"
proof (induction ps arbitrary: s t)
  case Nil
  then show ?case by auto
next
  case (Cons p ps)
  obtain F n where p: "p = (F, n)" by (cases p)
  note run = Cons.prems [unfolded p run_pairs_Cons_Ptr]
  show ?case
  proof (cases "GetRegistrarForPlugin host h n s")
    case (Inl e)
    with run have "t = [Lookup n (Inl e)]" and "res = Inl (Raised e)" by auto
    with Inl show ?thesis by simp
  next
    case (Inr rs)
    obtain r s1 where rs: "rs = (r, s1)" by (cases rs)
    show ?thesis
    proof (cases "RegisterWithRegistrar host F r s1")
      case (Inl e)
      with run Inr rs have "t = [Lookup n (Inr r), Register F r (Some e)]"
        and "res = Inl (Raised e)" by auto
      with Inl Inr rs show ?thesis by simp
    next
      case reg: (Inr s2)
      obtain t' res' where rest: "run_pairs host (Ptr h) ps s2 = (t', res')"
        by (cases "run_pairs host (Ptr h) ps s2")
      from run Inr rs reg rest
      have t: "t = Lookup n (Inr r) # Register F r None # t'" and res': "res' = res"
        by auto
      from Cons.IH [OF rest [unfolded res']] have "performed host h s2 t' res" .
      with Inr rs reg show ?thesis by (simp add: t)
    qed
  qed
qed

lemma RegisterPlugins_genuine:
  assumes "RegisterPlugins host registry s = (t, res)"
  shows "genuine host registry s (t, res)"
proof (cases registry)
  case nullptr
  have "plugin_table \<noteq> []" by (simp add: plugin_table_def)
  from run_pairs_nullptr [OF this, of host s] assms nullptr
  show ?thesis by (simp add: RegisterPlugins_table genuine_def)
next
  case (Ptr h)
  with assms have "run_pairs host (Ptr h) plugin_table s = (t, res)"
    by (simp add: RegisterPlugins_table)
  then have "performed host h s t res" by (rule run_pairs_performed)
  then show ?thesis by (simp add: genuine_def Ptr)
qed

section \<open>Failing calls\<close>




section \<open>Runs of the mock registries\<close>

lemma calls_of_plugin_table: "calls_of_pairs plugin_table = program_order"
  by (simp add: plugin_table_def program_order_def)

lemma calls_of_full_round: "map call_of full_round = program_order"
  by (simp add: full_round_def program_order_def)

text \<open>The recording mock with nothing failing, from any record it starts with: the trace
  is one full round, and the mock has added the same sixteen calls to its record.\<close>

lemma mock_run:
  "RegisterPlugins (mock_host None None) (Ptr ()) log = (full_round, Inr (log @ full_round))"
  by (simp add: RegisterPlugins_def then_stmt_def stmt_def mock_host_def full_round_def)

text \<open>The mock with a refused lookup, and with a failing registration.\<close>

lemma mock_run_bad_lookup:
  "RegisterPlugins (mock_host (Some ''FirebaseCorePluginCApi'') None) (Ptr ()) log =
     ([Lookup ''BatteryPlusWindowsPlugin'' (Inr ''BatteryPlusWindowsPlugin''),
       Register BatteryPlusWindowsPluginRegisterWithRegistrar ''BatteryPlusWindowsPlugin'' None,
       Lookup ''BonsoirWindowsPluginCApi'' (Inr ''BonsoirWindowsPluginCApi''),
       Register BonsoirWindowsPluginCApiRegisterWithRegistrar ''BonsoirWindowsPluginCApi'' None,
       Lookup ''FirebaseCorePluginCApi'' (Inl ''lookup failed'')],
      Inl (Raised ''lookup failed''))"
  by (simp add: RegisterPlugins_def then_stmt_def stmt_def mock_host_def)


text \<open>The mock that guards against double registration: a first invocation goes through,
  a second one is refused at the first registration.\<close>

lemma once_run_first:
  "RegisterPlugins once_host (Ptr ()) [] = (full_round, Inr full_round)"
  by (simp add: RegisterPlugins_def then_stmt_def stmt_def once_host_def full_round_def)

lemma once_run_second:
  "RegisterPlugins once_host (Ptr ()) full_round =
     ([Lookup ''BatteryPlusWindowsPlugin'' (Inr ''BatteryPlusWindowsPlugin''),
       Register BatteryPlusWindowsPluginRegisterWithRegistrar ''BatteryPlusWindowsPlugin''
         (Some ''already registered'')],
      Inl (Raised ''already registered''))"
  by (simp add: RegisterPlugins_def then_stmt_def stmt_def once_host_def full_round_def)


section \<open>Names and entry points of a trace\<close>



lemma entries_of_calls_append:
  "entries_of_calls (xs @ ys) = entries_of_calls xs @ entries_of_calls ys"
  by (induction xs rule: entries_of_calls.induct) simp_all

lemma lookup_names_calls: "lookup_names t = names_of_calls (map call_of t)"
  by (induction t rule: lookup_names.induct) simp_all

lemma registered_calls: "registered t = entries_of_calls (map call_of t)"
  by (induction t rule: registered.induct) simp_all

lemma names_of_program_order: "names_of_calls program_order = known_plugin_names"
  by (simp add: program_order_def known_plugin_names_def)

lemma entries_of_program_order:
  "entries_of_calls program_order =
    [BatteryPlusWindowsPluginRegisterWithRegistrar,
     BonsoirWindowsPluginCApiRegisterWithRegistrar,
     FirebaseCorePluginCApiRegisterWithRegistrar,
     FlutterJsPluginRegisterWithRegistrar,
     PermissionHandlerWindowsPluginRegisterWithRegistrar,
     ScreenRetrieverWindowsPluginCApiRegisterWithRegistrar,
     UrlLauncherWindowsRegisterWithRegistrar,
     WindowManagerPluginRegisterWithRegistrar]"
  by (simp add: program_order_def)



lemma RegisterPlugins_calls_prefix:
  "RegisterPlugins host registry s = (t, res) \<Longrightarrow> prefix (map call_of t) program_order"
  using run_pairs_calls_prefix [of host registry plugin_table s t res]
  by (simp add: RegisterPlugins_table calls_of_plugin_table)

lemma RegisterPlugins_calls_return:
  "RegisterPlugins host registry s = (t, Inr s') \<Longrightarrow> map call_of t = program_order"
  using run_pairs_calls_success [of host registry plugin_table s t s']
  by (simp add: RegisterPlugins_table calls_of_plugin_table)



section \<open>The order of the calls\<close>

text \<open>
  Claim C9. The calls of \<open>RegisterPlugins\<close> follow one fixed straight-line order, the
  order of the source text: BatteryPlusWindowsPlugin, BonsoirWindowsPluginCApi,
  FirebaseCorePluginCApi, FlutterJsPlugin, PermissionHandlerWindowsPlugin,
  ScreenRetrieverWindowsPluginCApi, UrlLauncherWindows, WindowManagerPlugin, the lookup
  of each plugin immediately followed by the call of that plugin's entry point. This
  holds for every host, every registry handle and every state. The trace of an
  invocation is the sequence of the calls made on the host, each with the result the
  host gave in the state the call before it left (\<open>genuine\<close>); the calls of an
  invocation that returns are exactly \<open>program_order\<close>, and the calls of an invocation
  that a failure cuts short are an initial part of it.
\<close>

theorem RegisterPlugins_program_order:
  assumes "RegisterPlugins host registry s = (t, res)"
  shows "genuine host registry s (t, res)
         \<and> prefix (map call_of t) program_order
         \<and> (\<forall>s'. res = Inr s' \<longrightarrow> map call_of t = program_order)"
proof -
  from assms have run: "run_pairs host registry plugin_table s = (t, res)"
    by (simp add: RegisterPlugins_table)
  from run_pairs_calls_prefix [OF run] have "prefix (map call_of t) program_order"
    by (simp add: calls_of_plugin_table)
  moreover have "map call_of t = program_order" if "res = Inr s'" for s'
    using run_pairs_calls_success [OF run [unfolded that]]
    by (simp add: calls_of_plugin_table)
  moreover note RegisterPlugins_genuine [OF assms]
  ultimately show ?thesis by blast
qed

text \<open>On the recording mock: the mock's own record after the invocation is the program
  order, call for call.\<close>

theorem RegisterPlugins_program_order_witness:
  "map_sum id (map call_of) (snd (RegisterPlugins (mock_host None None) (Ptr ()) [])) =
     Inr program_order
   \<and> map call_of (fst (RegisterPlugins (mock_host None None) (Ptr ()) [])) = program_order
   \<and> genuine (mock_host None None) (Ptr ()) []
        (RegisterPlugins (mock_host None None) (Ptr ()) [])
   \<and> prefix (map call_of
        (fst (RegisterPlugins (mock_host (Some ''FirebaseCorePluginCApi'') None) (Ptr ()) [])))
        program_order
   \<and> length (fst (RegisterPlugins (mock_host (Some ''FirebaseCorePluginCApi'') None)
        (Ptr ()) [])) = 5"
  using RegisterPlugins_program_order [OF mock_run [of "[]"]]
    RegisterPlugins_program_order [OF mock_run_bad_lookup [of "[]"]]
  by (simp add: mock_run mock_run_bad_lookup)

section \<open>The null handle and invalid handles\<close>





section \<open>The lookups\<close>





section \<open>The registrations\<close>






section \<open>Failures\<close>



section \<open>A second invocation\<close>

lemma RegisterPlugins_first_call:
  assumes "RegisterPlugins host (Ptr h) s = (t, res)"
  shows "t \<noteq> [] \<and> call_of (hd t) = LookupCall ''BatteryPlusWindowsPlugin''"
proof -
  obtain ps where tab: "plugin_table =
      (BatteryPlusWindowsPluginRegisterWithRegistrar, ''BatteryPlusWindowsPlugin'') # ps"
    by (simp add: plugin_table_def)
  note run = assms [unfolded RegisterPlugins_table tab run_pairs_Cons_Ptr]
  show ?thesis
  proof (cases "GetRegistrarForPlugin host h ''BatteryPlusWindowsPlugin'' s")
    case (Inl e)
    with run have "t = [Lookup ''BatteryPlusWindowsPlugin'' (Inl e)]" by auto
    then show ?thesis by simp
  next
    case (Inr rs)
    obtain r s1 where rs: "rs = (r, s1)" by (cases rs)
    show ?thesis
    proof (cases "RegisterWithRegistrar host BatteryPlusWindowsPluginRegisterWithRegistrar r s1")
      case (Inl e)
      with run Inr rs have "t = [Lookup ''BatteryPlusWindowsPlugin'' (Inr r),
          Register BatteryPlusWindowsPluginRegisterWithRegistrar r (Some e)]" by auto
      then show ?thesis by simp
    next
      case reg: (Inr s2)
      obtain t' res' where rest: "run_pairs host (Ptr h) ps s2 = (t', res')"
        by (cases "run_pairs host (Ptr h) ps s2")
      from run Inr rs reg rest
      have "t = Lookup ''BatteryPlusWindowsPlugin'' (Inr r)
          # Register BatteryPlusWindowsPluginRegisterWithRegistrar r None # t'" by auto
      then show ?thesis by simp
    qed
  qed
qed

text \<open>
  Claim C6, as the code has it. \<open>RegisterPlugins\<close> has no guard of its own against
  being invoked again. After an invocation that returned, a second invocation on the
  same registry, in the state the first one left, again makes its calls on the host
  (\<open>genuine\<close>), starting with the lookup of the first plugin and going through the
  calls of the first round in their order for as long as no call of the host fails.
  When it returns, it has performed a second full round of the eight lookups and the
  eight registration calls, call for call the round of the first invocation. Whether
  the second round is cut short, and whether it changes the registry again, is up to
  the host.
\<close>

theorem RegisterPlugins_second_round:
  assumes "RegisterPlugins host registry s = (t1, Inr s1)"
    and "RegisterPlugins host registry s1 = (t2, res2)"
  shows "genuine host registry s1 (t2, res2)
         \<and> t2 \<noteq> [] \<and> call_of (hd t2) = LookupCall ''BatteryPlusWindowsPlugin''
         \<and> prefix (map call_of t2) (map call_of t1)
         \<and> (\<forall>s2. res2 = Inr s2 \<longrightarrow>
               map call_of t2 = map call_of t1
               \<and> length (lookup_names t2) = 8 \<and> length (registered t2) = 8)"
proof -
  have "plugin_table \<noteq> []" by (simp add: plugin_table_def)
  with assms(1) obtain h where h: "registry = Ptr h"
    unfolding RegisterPlugins_table by (blast dest: run_pairs_success_Ptr)
  have first: "map call_of t1 = program_order"
    using assms(1) by (rule RegisterPlugins_calls_return)
  have "t2 \<noteq> [] \<and> call_of (hd t2) = LookupCall ''BatteryPlusWindowsPlugin''"
    using assms(2) unfolding h by (rule RegisterPlugins_first_call)
  moreover have "prefix (map call_of t2) (map call_of t1)"
    using RegisterPlugins_calls_prefix [OF assms(2)] by (simp add: first)
  moreover have "map call_of t2 = map call_of t1
      \<and> length (lookup_names t2) = 8 \<and> length (registered t2) = 8"
    if "res2 = Inr s2" for s2
  proof -
    from assms(2) that have second: "map call_of t2 = program_order"
      by (simp add: RegisterPlugins_calls_return)
    then show ?thesis
      by (simp add: first lookup_names_calls registered_calls names_of_program_order
          entries_of_program_order known_plugin_names_def)
  qed
  moreover note RegisterPlugins_genuine [OF assms(2)]
  ultimately show ?thesis by blast
qed

text \<open>On the recording mock: after the second invocation the mock's record holds two
  full rounds.\<close>

theorem RegisterPlugins_second_round_witness:
  "snd (RegisterPlugins (mock_host None None) (Ptr ()) []) = Inr full_round
   \<and> snd (RegisterPlugins (mock_host None None) (Ptr ()) full_round) =
       Inr (full_round @ full_round)
   \<and> fst (RegisterPlugins (mock_host None None) (Ptr ()) full_round) = full_round
   \<and> map call_of (fst (RegisterPlugins (mock_host None None) (Ptr ()) full_round)) =
       map call_of (fst (RegisterPlugins (mock_host None None) (Ptr ()) []))
   \<and> length (lookup_names full_round) = 8
   \<and> length (registered full_round) = 8"
  using RegisterPlugins_second_round [OF mock_run [of "[]"] mock_run [of "[] @ full_round"]]
  by (simp add: mock_run)

text \<open>
  The claim as the specification states it fails on a host that refuses a second
  registration: on \<open>once_host\<close> the first invocation returns, and the second one, in
  the state the first one left, ends with the host's refusal after one lookup and one
  registration call, not after eight of each.
\<close>

theorem RegisterPlugins_second_round_counterexample:
  "RegisterPlugins once_host (Ptr ()) [] = (full_round, Inr full_round)
   \<and> snd (RegisterPlugins once_host (Ptr ()) full_round) = Inl (Raised ''already registered'')
   \<and> length (lookup_names (fst (RegisterPlugins once_host (Ptr ()) full_round))) = 1
   \<and> length (registered (fst (RegisterPlugins once_host (Ptr ()) full_round))) = 1"
  by (simp add: once_run_first once_run_second)

section \<open>Determinism\<close>

lemma host_respects_lookup:
  "host_respects host view \<Longrightarrow> view s1 = view s2 \<Longrightarrow>
     map_sum id (map_prod id view) (GetRegistrarForPlugin host h n s1) =
     map_sum id (map_prod id view) (GetRegistrarForPlugin host h n s2)"
  unfolding host_respects_def by blast

lemma host_respects_register:
  "host_respects host view \<Longrightarrow> view s1 = view s2 \<Longrightarrow>
     map_sum id view (RegisterWithRegistrar host F r s1) =
     map_sum id view (RegisterWithRegistrar host F r s2)"
  unfolding host_respects_def by blast

lemma stmt_view:
  assumes "host_respects host view" and "view s1 = view s2"
  shows "observe view (stmt host F registry n s1) = observe view (stmt host F registry n s2)"
proof (cases registry)
  case nullptr
  then show ?thesis by (simp add: stmt_def)
next
  case (Ptr h)
  from assms have lk: "map_sum id (map_prod id view) (GetRegistrarForPlugin host h n s1) =
      map_sum id (map_prod id view) (GetRegistrarForPlugin host h n s2)"
    by (rule host_respects_lookup)
  show ?thesis
  proof (cases "GetRegistrarForPlugin host h n s1")
    case (Inl e)
    with lk have "GetRegistrarForPlugin host h n s2 = Inl e"
      by (cases "GetRegistrarForPlugin host h n s2") simp_all
    with Inl show ?thesis by (simp add: stmt_def Ptr)
  next
    case (Inr rs)
    obtain r a where rs: "rs = (r, a)" by (cases rs)
    from lk Inr rs obtain b where g2: "GetRegistrarForPlugin host h n s2 = Inr (r, b)"
      and ab: "view a = view b"
      by (cases "GetRegistrarForPlugin host h n s2") auto
    from assms(1) ab have "map_sum id view (RegisterWithRegistrar host F r a) =
        map_sum id view (RegisterWithRegistrar host F r b)"
      by (rule host_respects_register)
    then show ?thesis
      by (cases "RegisterWithRegistrar host F r a"; cases "RegisterWithRegistrar host F r b")
        (simp_all add: stmt_def Ptr Inr rs g2 observe_def)
  qed
qed

lemma then_stmt_view:
  assumes c1: "observe view (c1 s1) = observe view (c1 s2)"
    and c2: "\<And>a b. view a = view b \<Longrightarrow> observe view (c2 a) = observe view (c2 b)"
  shows "observe view (then_stmt c1 c2 s1) = observe view (then_stmt c1 c2 s2)"
proof -
  obtain t1 r1 where o1: "c1 s1 = (t1, r1)" by (cases "c1 s1")
  obtain t2 r2 where o2: "c1 s2 = (t2, r2)" by (cases "c1 s2")
  from c1 have t: "t1 = t2" and r: "map_sum id view r1 = map_sum id view r2"
    by (simp_all add: o1 o2 observe_def)
  show ?thesis
  proof (cases r1)
    case (Inl x)
    with r have "r2 = Inl x" by (cases r2) simp_all
    with Inl t show ?thesis by (simp add: then_stmt_def o1 o2 observe_def)
  next
    case (Inr a)
    with r obtain b where r2: "r2 = Inr b" and ab: "view a = view b"
      by (cases r2) simp_all
    obtain u1 q1 where p1: "c2 a = (u1, q1)" by (cases "c2 a")
    obtain u2 q2 where p2: "c2 b = (u2, q2)" by (cases "c2 b")
    from c2 [OF ab] have "u1 = u2" and "map_sum id view q1 = map_sum id view q2"
      by (simp_all add: p1 p2 observe_def)
    then show ?thesis
      by (simp add: then_stmt_def o1 o2 Inr r2 p1 p2 t observe_def)
  qed
qed

lemma run_pairs_view:
  assumes "host_respects host view"
  shows "view s1 = view s2 \<Longrightarrow>
    observe view (run_pairs host registry ps s1) = observe view (run_pairs host registry ps s2)"
proof (induction ps arbitrary: s1 s2)
  case Nil
  then show ?case by (simp add: observe_def)
next
  case (Cons p ps)
  obtain F n where p: "p = (F, n)" by (cases p)
  show ?case
    unfolding p run_pairs.simps
    by (rule then_stmt_view) (rule stmt_view [OF assms Cons.prems], rule Cons.IH)
qed

text \<open>
  Claim C10. \<open>RegisterPlugins\<close> is deterministic and depends on the world only through
  what the host's calls see of it: it reads nothing itself and keeps no state of its
  own. When the calls of the host depend on the world only through the registry's state
  (the view), two invocations in worlds with equal registry states produce the same
  trace, that is the same sequence of lookup and registration calls with the same
  arguments and results, and end alike with equal registry states.
\<close>

theorem RegisterPlugins_deterministic:
  assumes "host_respects host view" and "view s1 = view s2"
  shows "observe view (RegisterPlugins host registry s1) =
         observe view (RegisterPlugins host registry s2)"
  unfolding RegisterPlugins_table using assms by (rule run_pairs_view)

theorem RegisterPlugins_deterministic_witness:
  "host_respects ambient_host fst
   \<and> fst (0::nat, 5::nat) = fst (0::nat, 7::nat)
   \<and> observe fst (RegisterPlugins ambient_host (Ptr ()) (0, 5)) =
       observe fst (RegisterPlugins ambient_host (Ptr ()) (0, 7))
   \<and> snd (RegisterPlugins ambient_host (Ptr ()) (0, 5)) = Inr (8, 5)
   \<and> snd (RegisterPlugins ambient_host (Ptr ()) (0, 7)) = Inr (8, 7)"
proof -
  have r: "host_respects ambient_host fst"
    by (simp add: host_respects_def ambient_host_def)
  have v: "fst (0::nat, 5::nat) = fst (0::nat, 7::nat)" by simp
  have "snd (RegisterPlugins ambient_host (Ptr ()) (0, x)) = Inr (8, x)" for x :: nat
    by (simp add: RegisterPlugins_def then_stmt_def stmt_def ambient_host_def)
  with r v RegisterPlugins_deterministic [OF r v, of "Ptr ()"]
  show ?thesis by simp
qed

section \<open>The registry of the specification: effect on the slots\<close>

lemma slot_run_Cons:
  "run_pairs (slot_registry g a) (Ptr h) ((F, n) # ps) s =
     (case g n (s n) of
        Some e \<Rightarrow> ([Lookup n (Inl e)], Inl (Raised e))
      | None \<Rightarrow>
          (case a F (s n) of
             Inl e \<Rightarrow> ([Lookup n (Inr n), Register F n (Some e)], Inl (Raised e))
           | Inr c \<Rightarrow>
               (case run_pairs (slot_registry g a) (Ptr h) ps (s(n \<mapsto> c)) of
                  (t, res) \<Rightarrow> (Lookup n (Inr n) # Register F n None # t, res))))"
  unfolding run_pairs_Cons_Ptr
  by (simp add: slot_registry_def split: option.splits sum.splits)

lemma slot_run_Cons_return:
  "snd (run_pairs (slot_registry g a) (Ptr h) ((F, n) # ps) s) = Inr s' \<longleftrightarrow>
     g n (s n) = None \<and>
     (\<exists>c. a F (s n) = Inr c \<and>
          snd (run_pairs (slot_registry g a) (Ptr h) ps (s(n \<mapsto> c))) = Inr s')"
  unfolding slot_run_Cons
  by (auto split: option.splits sum.splits prod.splits)

lemma slot_run_return_iff:
  assumes "distinct (map snd ps)"
  shows "snd (run_pairs (slot_registry g a) (Ptr h) ps s) = Inr s' \<longleftrightarrow>
         slots_after g a (set ps) s s'"
  using assms
proof (induction ps arbitrary: s)
  case Nil
  show ?case by (auto simp: slots_after_def)
next
  case (Cons p ps)
  obtain F n where p: "p = (F, n)" by (cases p)
  from Cons.prems have fresh: "n \<notin> snd ` set ps" and d: "distinct (map snd ps)"
    by (simp_all add: p)
  have IH: "snd (run_pairs (slot_registry g a) (Ptr h) ps u) = Inr s' \<longleftrightarrow>
      slots_after g a (set ps) u s'" for u
    using Cons.IH [OF d] .
  have other: "(s(n \<mapsto> c)) m = s m" if "(G, m) \<in> set ps" for c G m
  proof -
    from that have "m \<in> snd ` set ps" by force
    with fresh have "m \<noteq> n" by blast
    then show ?thesis by simp
  qed
  show ?case
  proof
    assume "snd (run_pairs (slot_registry g a) (Ptr h) (p # ps) s) = Inr s'"
    then obtain c where gn: "g n (s n) = None" and an: "a F (s n) = Inr c"
      and rest: "slots_after g a (set ps) (s(n \<mapsto> c)) s'"
      unfolding p slot_run_Cons_return IH by blast
    from rest fresh have sn: "s' n = Some c"
      unfolding slots_after_def by (metis fun_upd_same)
    have "g m (s m) = None \<and> (\<exists>c'. a G (s m) = Inr c' \<and> s' m = Some c')"
      if "(G, m) \<in> set ps" for G m
    proof -
      from rest that
      have "g m ((s(n \<mapsto> c)) m) = None
          \<and> (\<exists>c'. a G ((s(n \<mapsto> c)) m) = Inr c' \<and> s' m = Some c')"
        unfolding slots_after_def by blast
      then show ?thesis unfolding other [OF that] .
    qed
    moreover have "s' m = s m" if "m \<noteq> n" "m \<notin> snd ` set ps" for m
      using rest that unfolding slots_after_def by (metis fun_upd_other)
    ultimately show "slots_after g a (set (p # ps)) s s'"
      unfolding slots_after_def p using gn an sn by auto
  next
    assume after: "slots_after g a (set (p # ps)) s s'"
    then obtain c where gn: "g n (s n) = None" and an: "a F (s n) = Inr c"
      and sn: "s' n = Some c"
      unfolding slots_after_def p by auto
    have "g m ((s(n \<mapsto> c)) m) = None
        \<and> (\<exists>c'. a G ((s(n \<mapsto> c)) m) = Inr c' \<and> s' m = Some c')"
      if "(G, m) \<in> set ps" for G m
    proof -
      from that have "(G, m) \<in> set (p # ps)" by simp
      with after have "g m (s m) = None \<and> (\<exists>c'. a G (s m) = Inr c' \<and> s' m = Some c')"
        unfolding slots_after_def by blast
      then show ?thesis unfolding other [OF that] .
    qed
    moreover have "s' m = (s(n \<mapsto> c)) m" if "m \<notin> snd ` set ps" for m
      using after that sn unfolding slots_after_def p by (cases "m = n") auto
    ultimately have "slots_after g a (set ps) (s(n \<mapsto> c)) s'"
      unfolding slots_after_def by blast
    with gn an show "snd (run_pairs (slot_registry g a) (Ptr h) (p # ps) s) = Inr s'"
      unfolding p slot_run_Cons_return IH by blast
  qed
qed


lemma distinct_plugin_names: "distinct (map snd plugin_table)"
  by (simp add: plugin_table_def)

lemma names_of_plugin_table: "snd ` set plugin_table = set known_plugin_names"
  by (simp add: plugin_table_def known_plugin_names_def)

lemma slot_RegisterPlugins_return_iff:
  "snd (RegisterPlugins (slot_registry g a) (Ptr h) s) = Inr s' \<longleftrightarrow>
     slots_after g a (set plugin_table) s s'"
  unfolding RegisterPlugins_table
  using distinct_plugin_names by (rule slot_run_return_iff)

lemma slot_mock_run:
  "snd (RegisterPlugins (slot_registry open_grant counting_activate) (Ptr ())
         [''DesktopDropPlugin'' \<mapsto> 7]) =
     Inr (all_active [''DesktopDropPlugin'' \<mapsto> 7])"
  by (simp add: RegisterPlugins_def then_stmt_def stmt_def slot_registry_def open_grant_def
      counting_activate_def all_active_def)

section \<open>Commuting registrations\<close>

text \<open>
  Claim C7. In the registry of the specification, where each registration sees and
  writes its own plugin's slot only, the eight registrations commute: running the eight
  (lookup, register) pairs in any permuted order returns with some final registry state
  exactly when \<open>RegisterPlugins\<close>, which runs them in the order of the file, returns
  with that same state.
\<close>

theorem registrations_commute:
  assumes "mset ps = mset plugin_table"
  shows "snd (run_pairs (slot_registry grant activate) registry ps s) = Inr s' \<longleftrightarrow>
         snd (RegisterPlugins (slot_registry grant activate) registry s) = Inr s'"
proof (cases registry)
  case nullptr
  have tab: "plugin_table \<noteq> []" by (simp add: plugin_table_def)
  with assms have "ps \<noteq> []" by auto
  then show ?thesis
    unfolding nullptr RegisterPlugins_table
    by (simp add: run_pairs_nullptr [OF tab] run_pairs_nullptr [of ps])
next
  case (Ptr h)
  from assms have "mset (map snd ps) = mset (map snd plugin_table)" by simp
  then have "distinct (map snd ps) \<longleftrightarrow> distinct (map snd plugin_table)"
    by (rule mset_eq_imp_distinct_iff)
  with distinct_plugin_names have d: "distinct (map snd ps)" by simp
  from assms have "set ps = set plugin_table" by (rule mset_eq_setD)
  with slot_run_return_iff [OF d, of grant activate h s s']
  show ?thesis
    unfolding Ptr slot_RegisterPlugins_return_iff by simp
qed

theorem registrations_commute_witness:
  "mset (rev plugin_table) = mset plugin_table
   \<and> snd (RegisterPlugins (slot_registry open_grant counting_activate) (Ptr ())
        [''DesktopDropPlugin'' \<mapsto> 7]) = Inr (all_active [''DesktopDropPlugin'' \<mapsto> 7])
   \<and> snd (run_pairs (slot_registry open_grant counting_activate) (Ptr ()) (rev plugin_table)
        [''DesktopDropPlugin'' \<mapsto> 7]) = Inr (all_active [''DesktopDropPlugin'' \<mapsto> 7])"
proof -
  have m: "mset (rev plugin_table) = mset plugin_table" by simp
  from registrations_commute [OF m, of open_grant counting_activate "Ptr ()"
      "[''DesktopDropPlugin'' \<mapsto> 7]" "all_active [''DesktopDropPlugin'' \<mapsto> 7]"]
    slot_mock_run m
  show ?thesis by blast
qed

section \<open>The frame of an invocation\<close>

text \<open>
  Claim C8. \<open>RegisterPlugins\<close> returns no value: a returning invocation yields the new
  state and nothing else. In the registry of the specification, that state differs from
  the state before only in the eight plugins' slots: after the invocation the eight
  named plugins are all active, and every other slot of the registry is as it was.
\<close>

theorem RegisterPlugins_frame:
  assumes "RegisterPlugins (slot_registry grant activate) registry s = (t, Inr s')"
  shows "(\<forall>n \<in> set known_plugin_names. active s' n)
         \<and> (\<forall>n. n \<notin> set known_plugin_names \<longrightarrow> s' n = s n)"
proof -
  have "plugin_table \<noteq> []" by (simp add: plugin_table_def)
  with assms obtain h where h: "registry = Ptr h"
    unfolding RegisterPlugins_table by (blast dest: run_pairs_success_Ptr)
  from assms have "snd (RegisterPlugins (slot_registry grant activate) (Ptr h) s) = Inr s'"
    by (simp add: h)
  then have after: "slots_after grant activate (set plugin_table) s s'"
    by (simp only: slot_RegisterPlugins_return_iff)
  have "active s' n" if "n \<in> set known_plugin_names" for n
  proof -
    from that obtain F where "(F, n) \<in> set plugin_table"
      unfolding names_of_plugin_table [symmetric] by force
    with after show ?thesis unfolding slots_after_def active_def by fastforce
  qed
  moreover have "s' n = s n" if "n \<notin> set known_plugin_names" for n
    using after that unfolding slots_after_def names_of_plugin_table by blast
  ultimately show ?thesis by blast
qed

theorem RegisterPlugins_frame_witness:
  "snd (RegisterPlugins (slot_registry open_grant counting_activate) (Ptr ())
        [''DesktopDropPlugin'' \<mapsto> 7]) = Inr (all_active [''DesktopDropPlugin'' \<mapsto> 7])
   \<and> active (all_active [''DesktopDropPlugin'' \<mapsto> 7]) ''FlutterJsPlugin''
   \<and> all_active [''DesktopDropPlugin'' \<mapsto> 7] ''DesktopDropPlugin'' = Some 7
   \<and> all_active [''DesktopDropPlugin'' \<mapsto> 7] ''NoSuchPlugin'' = None"
proof -
  have run: "RegisterPlugins (slot_registry open_grant counting_activate) (Ptr ())
        [''DesktopDropPlugin'' \<mapsto> 7] =
      (fst (RegisterPlugins (slot_registry open_grant counting_activate) (Ptr ())
        [''DesktopDropPlugin'' \<mapsto> 7]), Inr (all_active [''DesktopDropPlugin'' \<mapsto> 7]))"
    using slot_mock_run by (simp add: prod_eq_iff)
  have k: "''FlutterJsPlugin'' \<in> set known_plugin_names"
    "''DesktopDropPlugin'' \<notin> set known_plugin_names"
    "''NoSuchPlugin'' \<notin> set known_plugin_names"
    by (simp_all add: known_plugin_names_def)
  from RegisterPlugins_frame [OF run] k slot_mock_run
  show ?thesis by simp
qed

end
